theory Spec2Isabelle
  imports Complex_Main "HOL-Library.Word"
begin

section \<open>JavaScript values\<close>

text \<open>
  A JavaScript string is a sequence of UTF-16 code units and \<open>.length\<close> counts code
  units, so a string is modelled as a list of 16-bit words. \<open>js\<close> writes an ASCII
  literal in that representation.

  A JavaScript number is an IEEE 754 double: \<open>NaN\<close>, an infinity, or a finite value,
  given here by the real number it denotes (the two zeros are one value: nothing below
  divides or inspects a sign). An arithmetic operation computes the exact result and
  rounds it to the nearest double, ties to the even significand; \<open>round_to_double\<close>
  is that rounding, for 53-bit significands, exponents down to the subnormal quantum
  \<open>2^-1074\<close> and overflow to an infinity at \<open>2^1024\<close>. It also gives the value of a
  decimal literal of the source.
\<close>

datatype jsnum = Finite real | PosInf | NegInf | NaN

text \<open>
  The binary exponent of a positive real, from \<open>-1022\<close> (all subnormals) to
  \<open>1024\<close> (beyond the largest double), found by halving or doubling.
\<close>

fun exp_up :: "nat \<Rightarrow> real \<Rightarrow> nat" where
  "exp_up 0 x = 0"
| "exp_up (Suc n) x = (if x < 2 then 0 else Suc (exp_up n (x / 2)))"

fun exp_down :: "nat \<Rightarrow> real \<Rightarrow> nat" where
  "exp_down 0 x = 0"
| "exp_down (Suc n) x = (if 1 \<le> x then 0 else Suc (exp_down n (x * 2)))"

definition binade :: "real \<Rightarrow> int" where
  "binade x = (if 1 \<le> x then int (exp_up 1024 x) else - int (exp_down 1022 x))"

definition pow2 :: "int \<Rightarrow> real" where
  "pow2 e = (if 0 \<le> e then 2 ^ nat e else 1 / 2 ^ nat (- e))"

definition round_half_even :: "real \<Rightarrow> int" where
  "round_half_even v =
     (let f = \<lfloor>v\<rfloor> in
        if of_int f + 1 / 2 < v then f + 1
        else if v < of_int f + 1 / 2 then f
        else if even f then f else f + 1)"

definition round_to_double :: "real \<Rightarrow> jsnum" where
  "round_to_double x =
     (if x = 0 then Finite 0
      else let q = pow2 (binade \<bar>x\<bar> - 52);
               y = of_int (round_half_even (x / q)) * q
           in if 2 ^ 1024 \<le> \<bar>y\<bar> then (if 0 < x then PosInf else NegInf) else Finite y)"

text \<open>The operators \<open>*\<close>, \<open>+\<close> and \<open>>\<close> on numbers.\<close>

fun js_mul :: "jsnum \<Rightarrow> jsnum \<Rightarrow> jsnum" where
  "js_mul NaN y = NaN"
| "js_mul x NaN = NaN"
| "js_mul (Finite a) (Finite b) = round_to_double (a * b)"
| "js_mul (Finite a) PosInf = (if a = 0 then NaN else if 0 < a then PosInf else NegInf)"
| "js_mul (Finite a) NegInf = (if a = 0 then NaN else if 0 < a then NegInf else PosInf)"
| "js_mul PosInf (Finite b) = (if b = 0 then NaN else if 0 < b then PosInf else NegInf)"
| "js_mul NegInf (Finite b) = (if b = 0 then NaN else if 0 < b then NegInf else PosInf)"
| "js_mul PosInf PosInf = PosInf"
| "js_mul PosInf NegInf = NegInf"
| "js_mul NegInf PosInf = NegInf"
| "js_mul NegInf NegInf = PosInf"

fun js_add :: "jsnum \<Rightarrow> jsnum \<Rightarrow> jsnum" where
  "js_add NaN y = NaN"
| "js_add x NaN = NaN"
| "js_add (Finite a) (Finite b) = round_to_double (a + b)"
| "js_add PosInf NegInf = NaN"
| "js_add NegInf PosInf = NaN"
| "js_add PosInf y = PosInf"
| "js_add x PosInf = PosInf"
| "js_add NegInf y = NegInf"
| "js_add x NegInf = NegInf"

fun js_gt :: "jsnum \<Rightarrow> jsnum \<Rightarrow> bool" where
  "js_gt NaN y = False"
| "js_gt x NaN = False"
| "js_gt (Finite a) (Finite b) = (b < a)"
| "js_gt x PosInf = False"
| "js_gt PosInf y = True"
| "js_gt NegInf y = False"
| "js_gt x NegInf = True"

type_synonym code_unit = "16 word"

type_synonym jsstring = "code_unit list"

definition js :: "string \<Rightarrow> jsstring" where
  "js s = map (\<lambda>c. of_nat (of_char c)) s"

text \<open>The character class \<open>\s\<close> of an ECMAScript regular expression.\<close>

definition is_js_whitespace :: "code_unit \<Rightarrow> bool" where
  "is_js_whitespace c \<longleftrightarrow>
     c \<in> {0x9, 0xA, 0xB, 0xC, 0xD, 0x20, 0xA0, 0x1680, 0x2028, 0x2029, 0x202F,
          0x205F, 0x3000, 0xFEFF}
     \<or> (0x2000 \<le> c \<and> c \<le> 0x200A)"

text \<open>
  \<open>s.replace(/\s+/g, "")\<close>: scanning from the left, every maximal run of whitespace
  is replaced by the empty string.
\<close>

function replace_whitespace_runs :: "jsstring \<Rightarrow> jsstring" where
  "replace_whitespace_runs [] = []"
| "replace_whitespace_runs (c # cs) =
     (if is_js_whitespace c then replace_whitespace_runs (dropWhile is_js_whitespace cs)
      else c # replace_whitespace_runs cs)"
  by pat_completeness auto
termination
  by (relation "measure length") (auto simp: length_dropWhile_le less_Suc_eq_le)

text \<open>
  \<open>s.split(sep)\<close> for a one-character separator: the pieces between separators, empty
  pieces included; the empty string gives one empty piece.
\<close>

fun split_on :: "'a \<Rightarrow> 'a list \<Rightarrow> 'a list list" where
  "split_on sep [] = [[]]"
| "split_on sep (c # cs) =
     (if c = sep then [] # split_on sep cs
      else (case split_on sep cs of [] \<Rightarrow> [[c]] | w # ws \<Rightarrow> (c # w) # ws))"

definition space :: code_unit where
  "space = 0x20"

definition hash :: code_unit where
  "hash = 0x23"

datatype error =
    CreateImageBitmapRejected
  | CanvasContextUnavailable
  | IndexSizeError
  | ToBlobFailed
  | DetectClothingRejected
  | FFmpegRejected string

record Blob =
  content :: "8 word list"
  mime :: string

section \<open>Image enhancer\<close>

text \<open>
  \<open>ImageData\<close>: width, height and a \<open>Uint8ClampedArray\<close> of interleaved RGBA samples,
  row-major. The platform only builds values with \<open>data.length = 4 * width * height\<close>
  (\<open>wf_image\<close>). An \<open>ImageBitmap\<close> or a loaded image exposes the same dimensions.
\<close>

record Dimensions =
  width :: nat
  height :: nat

record ImageData = Dimensions +
  data :: "8 word list"

definition wf_image :: "ImageData \<Rightarrow> bool" where
  "wf_image img \<longleftrightarrow> length (data img) = 4 * width img * height img"

text \<open>
  The options of the page. Brightness, saturation and sharpen are finite numbers, each
  given by the real it denotes.
\<close>

record ProcessingOptions =
  scale :: nat
  brightness :: real
  saturation :: real
  sharpen :: real

text \<open>\<open>Math.max(0, Math.min(255, value))\<close>; both functions return \<open>NaN\<close> for \<open>NaN\<close>.\<close>

fun clamp :: "jsnum \<Rightarrow> jsnum" where
  "clamp NaN = NaN"
| "clamp PosInf = Finite 255"
| "clamp NegInf = Finite 0"
| "clamp (Finite v) = Finite (max 0 (min 255 v))"

text \<open>
  Storing a number into a \<open>Uint8ClampedArray\<close> element: \<open>NaN\<close> becomes 0, other
  values are clamped to 0..255 and rounded to the nearest integer, ties to even.
\<close>

fun toUint8Clamp :: "jsnum \<Rightarrow> 8 word" where
  "toUint8Clamp NaN = 0"
| "toUint8Clamp PosInf = 255"
| "toUint8Clamp NegInf = 0"
| "toUint8Clamp (Finite v) =
     (if v \<le> 0 then 0 else if 255 \<le> v then 255 else word_of_int (round_half_even v))"

text \<open>
  Element \<open>i\<close> of a typed array used as a number: out of range the read gives
  \<open>undefined\<close>, which arithmetic turns into \<open>NaN\<close>. A write out of range is ignored,
  as \<open>list_update\<close> does.
\<close>

definition sample :: "8 word list \<Rightarrow> nat \<Rightarrow> jsnum" where
  "sample buf i = (if i < length buf then Finite (real (unat (buf ! i))) else NaN)"

definition getIndex :: "nat \<Rightarrow> nat \<Rightarrow> nat \<Rightarrow> nat" where
  "getIndex w x y = (y * w + x) * 4"

text \<open>The kernel, for an intensity that is a finite number.\<close>

definition weights :: "real \<Rightarrow> jsnum list" where
  "weights intensity =
     [Finite 0, js_mul (Finite (- 1)) (Finite intensity), Finite 0,
      js_mul (Finite (- 1)) (Finite intensity),
      js_add (Finite 1) (js_mul (Finite 4) (Finite intensity)),
      js_mul (Finite (- 1)) (Finite intensity),
      Finite 0, js_mul (Finite (- 1)) (Finite intensity), Finite 0]"

text \<open>The kernel loop visits \<open>ky = -1, 0, 1\<close> and inside it \<open>kx = -1, 0, 1\<close>.\<close>

definition kernel_offsets :: "(int \<times> int) list" where
  "kernel_offsets = concat (map (\<lambda>ky. map (\<lambda>kx. (kx, ky)) [-1, 0, 1]) [-1, 0, 1])"

text \<open>
  The accumulator of one colour channel \<open>c\<close> (0 red, 1 green, 2 blue) after the nine
  taps around \<open>(x, y)\<close>, read from the snapshot \<open>copy\<close>.
\<close>

definition accumulate :: "8 word list \<Rightarrow> nat \<Rightarrow> jsnum list \<Rightarrow> nat \<Rightarrow> nat \<Rightarrow> nat \<Rightarrow> jsnum" where
  "accumulate copy w ws x y c =
     foldl (\<lambda>acc ((kx, ky), weight).
              js_add acc
                (js_mul (sample copy (getIndex w (nat (int x + kx)) (nat (int y + ky)) + c)) weight))
           (Finite 0) (zip kernel_offsets ws)"

definition sharpen_pixel ::
  "8 word list \<Rightarrow> nat \<Rightarrow> jsnum list \<Rightarrow> 8 word list \<Rightarrow> nat \<Rightarrow> nat \<Rightarrow> 8 word list" where
  "sharpen_pixel copy w ws buf x y =
     (let r = accumulate copy w ws x y 0;
          g = accumulate copy w ws x y 1;
          b = accumulate copy w ws x y 2;
          dest = getIndex w x y;
          buf1 = buf[dest := toUint8Clamp (clamp (js_add (sample buf dest) r))];
          buf2 = buf1[dest + 1 := toUint8Clamp (clamp (js_add (sample buf1 (dest + 1)) g))]
      in buf2[dest + 2 := toUint8Clamp (clamp (js_add (sample buf2 (dest + 2)) b))])"

definition applySharpen :: "ImageData \<Rightarrow> real \<Rightarrow> ImageData" where
  "applySharpen imageData intensity =
     (let copy = data imageData;
          ws = weights intensity;
          w = width imageData;
          h = height imageData
      in imageData\<lparr>data :=
           foldl (\<lambda>buf y. foldl (\<lambda>buf x. sharpen_pixel copy w ws buf x y) buf [1 ..< w - 1])
                 (data imageData) [1 ..< h - 1]\<rparr>)"

text \<open>
  The value the pass stores at buffer index \<open>j\<close> of a processed colour sample: the
  sample found in the buffer plus the accumulator of its channel, clamped.
\<close>

definition stored_value :: "8 word list \<Rightarrow> nat \<Rightarrow> jsnum list \<Rightarrow> 8 word list \<Rightarrow> nat \<Rightarrow> 8 word" where
  "stored_value copy w ws buf j =
     toUint8Clamp (clamp (js_add (sample buf j)
       (accumulate copy w ws ((j div 4) mod w) ((j div 4) div w) (j mod 4))))"

text \<open>
  What \<open>enhanceOne\<close> needs from the browser. \<open>drawImage\<close> stands for drawing the
  bitmap through the context's filter, with high-quality smoothing, onto a canvas of
  the given size, and for the samples \<open>getImageData\<close> then reads from a canvas that
  has pixels. On a canvas without pixels (width or height 0, which a scale of 0 gives)
  \<open>getImageData\<close> throws an \<open>IndexSizeError\<close>; that is written out in
  \<open>enhanceOne\<close>. The scale is a natural number, as the buttons of the page set it.
  A canvas the platform cannot provide shows as \<open>getContext\<close> giving no context or
  as the encoder giving no blob; running out of memory in the middle of a call is
  outside the model.
\<close>

datatype canvas_filter = BrightnessSaturate real real

record 'file Browser =
  createImageBitmap :: "'file \<Rightarrow> ImageData option"
  getContext :: "nat \<Rightarrow> nat \<Rightarrow> bool"
  drawImage :: "canvas_filter \<Rightarrow> ImageData \<Rightarrow> nat \<Rightarrow> nat \<Rightarrow> 8 word list"
  canvasToBlob :: "ImageData \<Rightarrow> Blob option"
  detectClothing :: "ImageData \<Rightarrow> error + jsstring list"
  buildScript :: "jsstring list \<Rightarrow> jsstring \<Rightarrow> string \<Rightarrow> jsstring"

record EnhancedResult =
  canvas :: ImageData
  blob :: Blob

text \<open>The canvas content before the sharpen branch of \<open>enhanceOne\<close>.\<close>

definition resampled :: "'file Browser \<Rightarrow> ImageData \<Rightarrow> ProcessingOptions \<Rightarrow> ImageData" where
  "resampled env imageBitmap opts =
     (let w = width imageBitmap * scale opts;
          h = height imageBitmap * scale opts
      in \<lparr>width = w, height = h,
          data = drawImage env (BrightnessSaturate (brightness opts) (saturation opts))
                   imageBitmap w h\<rparr>)"

definition enhanceOne :: "'file Browser \<Rightarrow> 'file \<Rightarrow> ProcessingOptions \<Rightarrow> error + EnhancedResult" where
  "enhanceOne env file opts =
     (case createImageBitmap env file of
        None \<Rightarrow> Inl CreateImageBitmapRejected
      | Some imageBitmap \<Rightarrow>
          if \<not> getContext env (width imageBitmap * scale opts) (height imageBitmap * scale opts)
          then Inl CanvasContextUnavailable
          else if width imageBitmap * scale opts = 0 \<or> height imageBitmap * scale opts = 0
          then Inl IndexSizeError
          else
            let imageData = resampled env imageBitmap opts;
                final = (if sharpen opts > 0 then applySharpen imageData (sharpen opts)
                         else imageData)
            in (case canvasToBlob env final of
                  None \<Rightarrow> Inl ToBlobFailed
                | Some b \<Rightarrow> Inr \<lparr>canvas = final, blob = b\<rparr>))"

section \<open>Batch processing\<close>

text \<open>
  A gallery entry, without its identifier, file name and object URLs, which depend on
  the clock and on the browser's URL store. The state holds the gallery, the
  processing flag, what was logged to the console, and the files for which the loop
  has called \<open>URL.createObjectURL\<close>, the first statement of its body, in call order.
\<close>

record EnhancedImage =
  enhancedBlob :: Blob
  item_width :: nat
  item_height :: nat
  item_scale :: nat
  clothing :: "jsstring list"
  script :: jsstring

record 'file AppState =
  enhanced :: "EnhancedImage list"
  processing :: bool
  console :: "error list"
  original_urls :: "'file list"

text \<open>
  The body of the \<open>for (const file of files)\<close> loop after that first statement and up
  to \<open>results.push\<close>: the entry pushed for one file, or the error a rejected
  \<open>await\<close> throws.
\<close>

definition process_one ::
  "'file Browser \<Rightarrow> ProcessingOptions \<Rightarrow> bool \<Rightarrow> jsstring \<Rightarrow> string \<Rightarrow>
   'file \<Rightarrow> error + EnhancedImage" where
  "process_one env opts modelReady brand vibe file =
     (case enhanceOne env file opts of
        Inl e \<Rightarrow> Inl e
      | Inr enhancedResult \<Rightarrow>
          (case (if modelReady then detectClothing env (canvas enhancedResult) else Inr []) of
             Inl e \<Rightarrow> Inl e
           | Inr cl \<Rightarrow>
               Inr \<lparr>enhancedBlob = blob enhancedResult,
                    item_width = width (canvas enhancedResult),
                    item_height = height (canvas enhancedResult),
                    item_scale = scale opts,
                    clothing = cl,
                    script = buildScript env cl brand vibe\<rparr>))"

text \<open>
  The loop, with the files started so far and the results pushed so far: an error
  leaves it at once, and the results collected go with it.
\<close>

fun process_loop ::
  "'file Browser \<Rightarrow> ProcessingOptions \<Rightarrow> bool \<Rightarrow> jsstring \<Rightarrow> string \<Rightarrow>
   'file list \<Rightarrow> 'file list \<Rightarrow> EnhancedImage list \<Rightarrow>
   'file list \<times> (error + EnhancedImage list)" where
  "process_loop env opts modelReady brand vibe [] urls results = (urls, Inr results)"
| "process_loop env opts modelReady brand vibe (file # files) urls results =
     (case process_one env opts modelReady brand vibe file of
        Inl e \<Rightarrow> (urls @ [file], Inl e)
      | Inr entry \<Rightarrow>
          process_loop env opts modelReady brand vibe files (urls @ [file]) (results @ [entry]))"

text \<open>
  \<open>processFiles\<close>: the \<open>try\<close> block holds the whole loop and the one
  \<open>setEnhanced\<close> call after it; \<open>catch\<close> logs the error; \<open>finally\<close> clears the
  processing flag.
\<close>

definition processFiles ::
  "'file Browser \<Rightarrow> ProcessingOptions \<Rightarrow> bool \<Rightarrow> jsstring \<Rightarrow> string \<Rightarrow>
   'file AppState \<Rightarrow> 'file list \<Rightarrow> 'file AppState" where
  "processFiles env opts modelReady brand vibe st files =
     (if files = [] then st
      else
        let st1 = st\<lparr>processing := True\<rparr>;
            st2 = (case process_loop env opts modelReady brand vibe files (original_urls st1) [] of
                     (urls, Inr results) \<Rightarrow>
                       st1\<lparr>original_urls := urls, enhanced := results @ enhanced st1\<rparr>
                   | (urls, Inl e) \<Rightarrow>
                       st1\<lparr>original_urls := urls, console := console st1 @ [e]\<rparr>)
        in st2\<lparr>processing := False\<rparr>)"

section \<open>Video synthesizer: frame renderer\<close>

text \<open>
  The tag drawn at the bottom of the frame, as \<open>createVideoFromImage\<close> computes it
  from the brand it is given.
\<close>

definition brandingText :: "jsstring \<Rightarrow> jsstring" where
  "brandingText brand = (if brand \<noteq> [] then hash # replace_whitespace_runs brand else [])"

text \<open>
  The hashtag form in the words of the specification: everything that is not an ASCII
  letter or digit is stripped, and the rest is prefixed with \<open>#\<close>.
\<close>

definition is_alphanumeric :: "code_unit \<Rightarrow> bool" where
  "is_alphanumeric c \<longleftrightarrow>
     (0x30 \<le> c \<and> c \<le> 0x39) \<or> (0x41 \<le> c \<and> c \<le> 0x5A) \<or> (0x61 \<le> c \<and> c \<le> 0x7A)"

definition spec_hashtag :: "jsstring \<Rightarrow> jsstring" where
  "spec_hashtag brand = (if brand \<noteq> [] then hash # filter is_alphanumeric brand else [])"

text \<open>
  The lookup of the style in the table of accent colours. \<open>None\<close> stands for every
  result that is not one of the five colours (\<open>undefined\<close>, or a member inherited
  from \<open>Object.prototype\<close> for a key such as \<open>toString\<close>): the canvas ignores the
  assignment of such a value to \<open>fillStyle\<close>.
\<close>

definition accent :: "string \<Rightarrow> string option" where
  "accent vibe =
     map_of [(''casual'', ''#FFC285''), (''minimal'', ''#D6E4E5''), (''luxury'', ''#F8E3A1''),
             (''street'', ''#CBD5FF''), (''romantic'', ''#F9D5E5'')] vibe"

text \<open>
  The width test of \<open>wrapText\<close> on a candidate line of \<open>n\<close> code units:
  \<open>n * (fontSize * 0.55) > maxWidth\<close>, evaluated in doubles.
\<close>

definition too_wide :: "jsnum \<Rightarrow> jsnum \<Rightarrow> nat \<Rightarrow> bool" where
  "too_wide fontSize maxWidth n \<longleftrightarrow>
     js_gt (js_mul (Finite (real n)) (js_mul fontSize (round_to_double 0.55))) maxWidth"

fun wrap_loop ::
  "jsnum \<Rightarrow> jsnum \<Rightarrow> jsstring list \<Rightarrow> jsstring list \<Rightarrow> jsstring \<Rightarrow> jsstring list \<times> jsstring" where
  "wrap_loop fontSize maxWidth [] lines currentLine = (lines, currentLine)"
| "wrap_loop fontSize maxWidth (word # words) lines currentLine =
     (let tentative = (if currentLine \<noteq> [] then currentLine @ [space] @ word else word)
      in if too_wide fontSize maxWidth (length tentative)
         then wrap_loop fontSize maxWidth words
                (if currentLine \<noteq> [] then lines @ [currentLine] else lines) word
         else wrap_loop fontSize maxWidth words lines tentative)"

definition wrapText :: "jsstring \<Rightarrow> jsnum \<Rightarrow> jsnum \<Rightarrow> jsstring list" where
  "wrapText text fontSize maxWidth =
     (case wrap_loop fontSize maxWidth (split_on space text) [] [] of
        (lines, currentLine) \<Rightarrow> if currentLine \<noteq> [] then lines @ [currentLine] else lines)"

text \<open>
  Two notions used to state properties of \<open>wrapText\<close>: a line is acceptable when its
  estimated width does not exceed the maximum or when it is one of the words
  \<open>W\<close>; and the non-empty words of a list of lines.
\<close>

definition fits_or_word :: "jsnum \<Rightarrow> jsnum \<Rightarrow> jsstring set \<Rightarrow> jsstring \<Rightarrow> bool" where
  "fits_or_word fontSize maxWidth W line \<longleftrightarrow>
     \<not> too_wide fontSize maxWidth (length line) \<or> line \<in> W"

definition nonempty_words :: "jsstring list \<Rightarrow> jsstring list" where
  "nonempty_words lines = filter (\<lambda>w. w \<noteq> []) (concat (map (split_on space) lines))"

text \<open>
  A frame is the sequence of calls \<open>drawVideoFrame\<close> makes on the 2D context. The
  image enters only through its dimensions, which are positive for a loaded image. The
  coordinates are the real values of the source's formulas: the rounding of the
  renderer's arithmetic, sine and cosine is left out, and nothing proved below rests
  on a coordinate other than the constant position of the tag.
\<close>

datatype draw_op =
    FillStyle "string option"
  | FillRect real real real real
  | Save
  | Restore
  | Translate real real
  | DrawImage real real real real
  | GlobalAlpha real
  | Font string
  | TextBaseline string
  | FillText jsstring real real

definition zoom_of :: "real \<Rightarrow> real" where
  "zoom_of progress = 1.05 + progress * 0.15"

definition offsetX_of :: "real \<Rightarrow> real" where
  "offsetX_of progress = sin (progress * pi * 2) * 40"

definition offsetY_of :: "real \<Rightarrow> real" where
  "offsetY_of progress = cos (progress * pi * 2) * 30"

definition drawVideoFrame ::
  "Dimensions \<Rightarrow> real \<Rightarrow> real \<Rightarrow> real \<Rightarrow> string option \<Rightarrow> jsstring list \<Rightarrow> jsstring \<Rightarrow> draw_op list" where
  "drawVideoFrame img w h progress acc lines tag =
     (let zoom = zoom_of progress;
          offsetX = offsetX_of progress;
          offsetY = offsetY_of progress;
          imageRatio = real (width img) / real (height img);
          canvasRatio = w / h;
          drawHeight = (if imageRatio > canvasRatio then h else w / imageRatio);
          drawWidth = (if imageRatio > canvasRatio then drawHeight * imageRatio else w);
          centerX = w / 2;
          centerY = h / 2;
          scaledWidth = drawWidth * zoom;
          scaledHeight = drawHeight * zoom
      in [FillStyle (Some ''#101010''), FillRect 0 0 w h,
          Save, Translate (centerX + offsetX) (centerY + offsetY),
          DrawImage (- scaledWidth / 2) (- scaledHeight / 2) scaledWidth scaledHeight, Restore,
          FillStyle acc, GlobalAlpha 0.8, FillRect 60 (h - 520) (w - 120) 420, GlobalAlpha 1,
          FillStyle (Some ''#111''), Font ''bold 48px 'Inter', sans-serif'', TextBaseline ''top'',
          FillText (js ''Style & confort'') 100 (h - 480),
          FillStyle (Some ''#222''), Font ''32px 'Inter', sans-serif'']
         @ fst (foldl (\<lambda>(ops, textY) line. (ops @ [FillText line 100 textY], textY + 48))
                  ([], h - 420) lines)
         @ (if tag \<noteq> []
            then [FillStyle (Some ''#111''), Font ''bold 36px 'Inter', sans-serif'',
                  FillText tag 100 (h - 80)]
            else []))"

section \<open>Video synthesizer: frame loop\<close>

definition duration :: nat where
  "duration = 12000"

definition fps :: nat where
  "fps = 30"

definition totalFrames :: nat where
  "totalFrames = nat \<lfloor>(real duration / 1000) * real fps\<rfloor>"

text \<open>
  \<open>animate\<close> draws the frame for the current counter, increments the counter and
  either asks for another animation frame or stops the recorder. One call is one
  scheduling tick; the list is the sequence of pictures put on the canvas, in order.
\<close>

function animate :: "nat \<Rightarrow> (real \<Rightarrow> 'a) \<Rightarrow> nat \<Rightarrow> 'a list \<Rightarrow> 'a list" where
  "animate n draw frame shown =
     (if frame + 1 \<le> n
      then animate n draw (frame + 1) (shown @ [draw (real frame / real n)])
      else shown @ [draw (real frame / real n)])"
  by pat_completeness auto
termination
  by (relation "measure (\<lambda>(n, draw, frame, shown). Suc n - frame)") auto

text \<open>The progress values handed to the renderer over one job, in order.\<close>

definition frame_progress :: "real list" where
  "frame_progress = animate totalFrames (\<lambda>progress. progress) 0 []"

text \<open>The frames one job of \<open>createVideoFromImage\<close> renders, in order.\<close>

definition rendered_frames :: "Dimensions \<Rightarrow> string \<Rightarrow> jsstring \<Rightarrow> jsstring \<Rightarrow> draw_op list list" where
  "rendered_frames img vibe brand scr =
     animate totalFrames
       (\<lambda>progress. drawVideoFrame img 1080 1920 progress (accent vibe)
                      (wrapText scr (Finite 28) (Finite 680)) (brandingText brand))
       0 []"

section \<open>Video synthesizer: transcoding\<close>

text \<open>
  The FFmpeg instance is a library object. Its calls are parameters: each takes the
  instance state and gives the state after the call together with the value the
  awaited promise resolves to, or the error it rejects with. \<open>transcodeToMp4\<close>
  starts from the state of the instance it has just constructed.
\<close>

record 'fs FFmpeg =
  load :: "'fs \<Rightarrow> (error + unit) \<times> 'fs"
  fetchFile :: "Blob \<Rightarrow> error + 8 word list"
  writeFile :: "string \<Rightarrow> 8 word list \<Rightarrow> 'fs \<Rightarrow> (error + unit) \<times> 'fs"
  exec :: "string list \<Rightarrow> 'fs \<Rightarrow> (error + unit) \<times> 'fs"
  readFile :: "string \<Rightarrow> 'fs \<Rightarrow> (error + 8 word list) \<times> 'fs"
  deleteFile :: "string \<Rightarrow> 'fs \<Rightarrow> (error + unit) \<times> 'fs"

definition ffmpeg_args :: "string list" where
  "ffmpeg_args =
     [''-i'', ''input.webm'', ''-r'', ''30'', ''-vf'',
      ''scale=1080:1920:force_original_aspect_ratio=decrease,pad=1080:1920:(ow-iw)/2:(oh-ih)/2:black'',
      ''-c:v'', ''libx264'', ''-preset'', ''veryfast'', ''-crf'', ''23'',
      ''-pix_fmt'', ''yuv420p'', ''-movflags'', ''+faststart'', ''output.mp4'']"

text \<open>Sequencing of awaited calls: a rejection ends the function with the state reached.\<close>

definition await :: "('fs \<Rightarrow> (error + 'a) \<times> 'fs) \<Rightarrow> ('a \<Rightarrow> 'fs \<Rightarrow> (error + 'b) \<times> 'fs) \<Rightarrow> 'fs \<Rightarrow> (error + 'b) \<times> 'fs" where
  "await call rest fs =
     (case call fs of
        (Inl e, fs') \<Rightarrow> (Inl e, fs')
      | (Inr v, fs') \<Rightarrow> rest v fs')"

definition transcodeToMp4 :: "'fs FFmpeg \<Rightarrow> Blob \<Rightarrow> 'fs \<Rightarrow> (error + Blob) \<times> 'fs" where
  "transcodeToMp4 ffmpeg webmBlob =
     await (load ffmpeg) (\<lambda>_.
     await (\<lambda>fs. (fetchFile ffmpeg webmBlob, fs)) (\<lambda>bytes.
     await (writeFile ffmpeg ''input.webm'' bytes) (\<lambda>_.
     await (exec ffmpeg ffmpeg_args) (\<lambda>_.
     await (readFile ffmpeg ''output.mp4'') (\<lambda>fileData.
     await (deleteFile ffmpeg ''input.webm'') (\<lambda>_.
     await (deleteFile ffmpeg ''output.mp4'') (\<lambda>_ fs.
       (Inr \<lparr>content = fileData, mime = ''video/mp4''\<rparr>, fs))))))))"

section \<open>Test doubles and sample inputs\<close>

text \<open>A 3 by 3 opaque grey image: centre pixel \<open>c\<close>, the eight others \<open>v\<close>.\<close>

definition center_image :: "8 word \<Rightarrow> 8 word \<Rightarrow> ImageData" where
  "center_image c v =
     \<lparr>width = 3, height = 3,
      data = concat (map (\<lambda>i. if i = (4::nat) then [c, c, c, 255] else [v, v, v, 255]) [0 ..< 9])\<rparr>"

text \<open>
  A browser in which file 0 cannot be decoded and every other file decodes to \<open>img\<close>;
  drawing copies the bitmap's samples (the options below keep the scale at 1).
\<close>

definition test_browser :: "ImageData \<Rightarrow> nat Browser" where
  "test_browser img =
     \<lparr>createImageBitmap = (\<lambda>file. if file = 0 then None else Some img),
      getContext = (\<lambda>w h. True),
      drawImage = (\<lambda>flt bitmap w h. data bitmap),
      canvasToBlob = (\<lambda>c. Some \<lparr>content = data c, mime = ''image/png''\<rparr>),
      detectClothing = (\<lambda>c. Inr []),
      buildScript = (\<lambda>items brand vibe. [])\<rparr>"

definition test_options :: "real \<Rightarrow> ProcessingOptions" where
  "test_options s = \<lparr>scale = 1, brightness = 1, saturation = 1, sharpen = s\<rparr>"

definition empty_state :: "nat AppState" where
  "empty_state = \<lparr>enhanced = [], processing = False, console = [], original_urls = []\<rparr>"

text \<open>The gallery entry \<open>processFiles\<close> builds in that browser for a readable file.\<close>

definition test_entry :: "ImageData \<Rightarrow> real \<Rightarrow> EnhancedImage" where
  "test_entry img s =
     \<lparr>enhancedBlob = \<lparr>content = data (if s > 0 then applySharpen img s else img),
                      mime = ''image/png''\<rparr>,
      item_width = width img, item_height = height img, item_scale = 1,
      clothing = [], script = []\<rparr>"

text \<open>
  An FFmpeg instance whose file system is an association list from names to contents
  and whose call named \<open>failing\<close> rejects.
\<close>

definition test_ffmpeg :: "string \<Rightarrow> (string \<times> 8 word list) list FFmpeg" where
  "test_ffmpeg failing =
     \<lparr>load = (\<lambda>fs. (if failing = ''load'' then Inl (FFmpegRejected ''load'') else Inr (), fs)),
      fetchFile = (\<lambda>b. if failing = ''fetchFile'' then Inl (FFmpegRejected ''fetchFile'')
                        else Inr (content b)),
      writeFile = (\<lambda>name bytes fs.
         if failing = ''writeFile'' then (Inl (FFmpegRejected ''writeFile''), fs)
         else (Inr (), (name, bytes) # filter (\<lambda>entry. fst entry \<noteq> name) fs)),
      exec = (\<lambda>args fs.
         if failing = ''exec'' then (Inl (FFmpegRejected ''exec''), fs)
         else (Inr (), (last args, [0x6D, 0x70, 0x34]) # filter (\<lambda>entry. fst entry \<noteq> last args) fs)),
      readFile = (\<lambda>name fs.
         if failing = ''readFile'' then (Inl (FFmpegRejected ''readFile''), fs)
         else (case map_of fs name of
                 None \<Rightarrow> (Inl (FFmpegRejected ''readFile''), fs)
               | Some bytes \<Rightarrow> (Inr bytes, fs))),
      deleteFile = (\<lambda>name fs.
         if failing = ''deleteFile'' then (Inl (FFmpegRejected ''deleteFile''), fs)
         else (Inr (), filter (\<lambda>entry. fst entry \<noteq> name) fs))\<rparr>"

definition test_webm :: Blob where
  "test_webm = \<lparr>content = [0x1A, 0x45, 0xDF, 0xA3], mime = ''video/webm''\<rparr>"

section \<open>Evaluating double arithmetic\<close>

lemma exp_down_stop: "1 \<le> x \<Longrightarrow> exp_down n x = 0"
  by (cases n) simp_all

lemma exp_down_step: "x < 1 \<Longrightarrow> 0 < n \<Longrightarrow> exp_down n x = Suc (exp_down (n - 1) (x * 2))"
  by (cases n) simp_all

lemma exp_up_stop: "x < 2 \<Longrightarrow> exp_up n x = 0"
  by (cases n) simp_all

lemma exp_up_step: "2 \<le> x \<Longrightarrow> 0 < n \<Longrightarrow> exp_up n x = Suc (exp_up (n - 1) (x / 2))"
  by (cases n) simp_all

lemmas double_eval =
  round_to_double_def binade_def pow2_def round_half_even_def Let_def
  exp_down_stop exp_down_step exp_up_stop exp_up_step

text \<open>The literal \<open>0.55\<close> is the double \<open>4953959590107546 / 2^53\<close>.\<close>

lemma double_0_55: "round_to_double 0.55 = Finite (4953959590107546 / 2 ^ 53)"
  by (simp add: double_eval)

text \<open>Integers below \<open>2^53\<close> in magnitude are doubles: rounding leaves them as they are.\<close>

lemma exp_up_bound: "x < 2 ^ Suc m \<Longrightarrow> exp_up n x \<le> m"
proof (induction n arbitrary: x m)
  case 0
  show ?case by simp
next
  case (Suc n)
  show ?case
  proof (cases "x < 2")
    case True
    then show ?thesis by simp
  next
    case False
    then obtain k where m: "m = Suc k"
      using Suc.prems by (cases m) auto
    have "x / 2 < 2 ^ Suc k"
      using Suc.prems m by simp
    then have "exp_up n (x / 2) \<le> k"
      by (rule Suc.IH)
    then show ?thesis
      using False m by simp
  qed
qed

lemma pow2_neg: "pow2 (- int n) = 1 / 2 ^ n"
proof (cases "n = 0")
  case True
  then show ?thesis by (simp add: pow2_def)
next
  case False
  then have "\<not> 0 \<le> - int n" by simp
  moreover have "nat (- (- int n)) = n" by simp
  ultimately show ?thesis by (simp only: pow2_def if_False)
qed

lemma round_half_even_int: "round_half_even (of_int k) = k"
  by (simp add: round_half_even_def)

lemma round_to_double_int:
  assumes "\<bar>of_int k :: real\<bar> < 2 ^ 53"
  shows "round_to_double (of_int k) = Finite (of_int k)"
proof (cases "k = 0")
  case True
  then show ?thesis by (simp add: round_to_double_def)
next
  case False
  let ?x = "of_int k :: real"
  have "1 \<le> \<bar>k\<bar>"
    using False by simp
  then have "(1 :: real) \<le> of_int \<bar>k\<bar>"
    by (simp only: of_int_1_le_iff)
  then have one: "1 \<le> \<bar>?x\<bar>"
    by simp
  define e where "e = exp_up 1024 \<bar>?x\<bar>"
  have e52: "e \<le> 52"
    unfolding e_def using assms by (intro exp_up_bound) simp
  have b: "binade \<bar>?x\<bar> - 52 = - int (52 - e)"
    using one e52 by (simp add: binade_def e_def)
  have q: "pow2 (binade \<bar>?x\<bar> - 52) = 1 / 2 ^ (52 - e)"
    unfolding b by (rule pow2_neg)
  have "?x / (1 / 2 ^ (52 - e)) = of_int (k * 2 ^ (52 - e))"
    by simp
  then have r: "of_int (round_half_even (?x / (1 / 2 ^ (52 - e)))) * (1 / 2 ^ (52 - e)) = ?x"
    by (simp only: round_half_even_int) simp
  have big: "\<not> (2 :: real) ^ 1024 \<le> \<bar>?x\<bar>"
  proof -
    have "(2 :: real) ^ 53 \<le> 2 ^ 1024" by (intro power_increasing) simp_all
    then show ?thesis using assms by linarith
  qed
  have nz: "(?x = 0) = False"
    using False by simp
  have "round_to_double ?x = (if 2 ^ 1024 \<le> \<bar>?x\<bar> then (if 0 < ?x then PosInf else NegInf) else Finite ?x)"
    by (simp only: round_to_double_def nz if_False Let_def q r)
  then show ?thesis
    using big by (simp only: if_False)
qed

section \<open>Properties of the frame loop\<close>

declare animate.simps [simp del]

lemma animate_unfold:
  "frame \<le> n \<Longrightarrow>
   animate n draw frame shown = shown @ map (\<lambda>i. draw (real i / real n)) [frame ..< n + 1]"
proof (induction n draw frame shown rule: animate.induct)
  case (1 n draw frame shown)
  show ?case
  proof (cases "frame + 1 \<le> n")
    case True
    then have "animate n draw frame shown =
        (shown @ [draw (real frame / real n)]) @ map (\<lambda>i. draw (real i / real n)) [frame + 1 ..< n + 1]"
      using "1.IH" by (subst animate.simps) simp
    also have "\<dots> = shown @ map (\<lambda>i. draw (real i / real n)) (frame # [frame + 1 ..< n + 1])"
      by simp
    also have "frame # [frame + 1 ..< n + 1] = [frame ..< n + 1]"
      using True by (simp add: upt_conv_Cons)
    finally show ?thesis .
  next
    case False
    with "1.prems" have "frame = n" by simp
    then show ?thesis
      by (subst animate.simps) simp
  qed
qed

lemma totalFrames_eq: "totalFrames = 360"
  by (simp add: totalFrames_def duration_def fps_def)

lemma frame_progress_eq: "frame_progress = map (\<lambda>i. real i / 360) [0 ..< 361]"
  by (simp add: frame_progress_def totalFrames_eq animate_unfold)

text \<open>
  C1. The frame loop does not render 360 frames: the test \<open>frame <= totalFrames\<close> is
  made after the counter is incremented, so frames 0 to 360 are drawn, 361 in all,
  whatever the image, style, brand and caption.
\<close>

theorem rendered_frames_count:
  "totalFrames = 360 \<and> length (rendered_frames img vibe brand scr) = 361"
  by (simp add: rendered_frames_def totalFrames_eq animate_unfold)

lemma rendered_frames_map:
  "rendered_frames img vibe brand scr =
     map (\<lambda>progress. drawVideoFrame img 1080 1920 progress (accent vibe)
                      (wrapText scr (Finite 28) (Finite 680)) (brandingText brand)) frame_progress"
  by (simp add: rendered_frames_def frame_progress_def totalFrames_eq animate_unfold)

text \<open>
  C6. The progress handed to the renderer does not stay below 1: the last of the 361
  frames, index 360, is drawn with progress \<open>360 / 360 = 1\<close>.
\<close>

theorem frame_progress_reaches_one:
  "length frame_progress = 361 \<and> frame_progress ! 360 = 1 \<and> last frame_progress = 1"
  by (simp add: frame_progress_eq last_map nth_append)

text \<open>The 360 frames before it are drawn with a progress in \<open>[0, 1)\<close>.\<close>

lemma frame_progress_before_last:
  "i < 360 \<Longrightarrow> 0 \<le> frame_progress ! i \<and> frame_progress ! i < 1"
  by (simp add: frame_progress_eq nth_append)

section \<open>Properties of the brand tag\<close>

lemma filter_dropWhile_not: "filter (\<lambda>c. \<not> P c) (dropWhile P xs) = filter (\<lambda>c. \<not> P c) xs"
  by (induction xs) auto

lemma replace_whitespace_runs_filter:
  "replace_whitespace_runs s = filter (\<lambda>c. \<not> is_js_whitespace c) s"
  by (induction s rule: replace_whitespace_runs.induct) (auto simp: filter_dropWhile_not)

text \<open>
  C4, as stated, fails: the brand \<open>A&B\<close> gives the tag \<open>#A&B\<close>, where stripping
  every non-alphanumeric character would give \<open>#AB\<close>.
\<close>

theorem brandingText_keeps_punctuation:
  "brandingText (js ''A&B'') \<noteq> spec_hashtag (js ''A&B'')"
  by (simp add: brandingText_def spec_hashtag_def js_def is_js_whitespace_def
      is_alphanumeric_def hash_def)

text \<open>
  C4, amended. For a non-empty brand the tag is \<open>#\<close> followed by the brand with its
  whitespace characters removed and every other character kept, and it is the last
  text drawn on the frame; for the empty brand the tag is empty.
\<close>

theorem brandingText_strips_whitespace_only:
  "brandingText [] = [] \<and>
   (brand \<noteq> [] \<longrightarrow>
      brandingText brand = hash # filter (\<lambda>c. \<not> is_js_whitespace c) brand \<and>
      last (drawVideoFrame img w h progress acc lines (brandingText brand))
        = FillText (hash # filter (\<lambda>c. \<not> is_js_whitespace c) brand) 100 (h - 80))"
  by (simp add: brandingText_def replace_whitespace_runs_filter drawVideoFrame_def Let_def)

theorem brandingText_strips_whitespace_only_witness:
  "js ''Atelier & Co'' \<noteq> [] \<and> brandingText (js ''Atelier & Co'') = js ''#Atelier&Co''"
  using brandingText_strips_whitespace_only [of "js ''Atelier & Co''"]
  by (simp add: js_def is_js_whitespace_def hash_def)

section \<open>Properties of word wrapping\<close>

lemma split_on_nonempty: "split_on sep s \<noteq> []"
  by (induction s) (auto split: list.splits)

lemma split_on_no_sep: "w \<in> set (split_on sep s) \<Longrightarrow> sep \<notin> set w"
  by (induction s arbitrary: w) (auto split: if_splits list.splits)

lemma split_on_word: "sep \<notin> set w \<Longrightarrow> split_on sep w = [w]"
  by (induction w) auto

lemma split_on_append:
  "split_on sep (a @ sep # b) = split_on sep a @ split_on sep b"
  by (induction a) (auto split: list.splits simp: split_on_nonempty)

lemma wrap_loop_fit:
  "wrap_loop fontSize maxWidth ws lines cur = (lines', cur') \<Longrightarrow>
   set ws \<subseteq> W \<Longrightarrow>
   \<forall>l \<in> set lines. fits_or_word fontSize maxWidth W l \<Longrightarrow>
   cur \<noteq> [] \<longrightarrow> fits_or_word fontSize maxWidth W cur \<Longrightarrow>
   (\<forall>l \<in> set lines'. fits_or_word fontSize maxWidth W l) \<and>
   (cur' \<noteq> [] \<longrightarrow> fits_or_word fontSize maxWidth W cur')"
proof (induction ws arbitrary: lines cur)
  case Nil
  then show ?case by simp
next
  case (Cons word ws)
  let ?tentative = "if cur \<noteq> [] then cur @ [space] @ word else word"
  show ?case
  proof (cases "too_wide fontSize maxWidth (length ?tentative)")
    case True
    then have step: "wrap_loop fontSize maxWidth ws (if cur \<noteq> [] then lines @ [cur] else lines) word
                 = (lines', cur')"
      using Cons.prems(1) by (simp add: Let_def)
    have "fits_or_word fontSize maxWidth W word"
      using Cons.prems(2) by (simp add: fits_or_word_def)
    moreover have "\<forall>l \<in> set (if cur \<noteq> [] then lines @ [cur] else lines). fits_or_word fontSize maxWidth W l"
      using Cons.prems(3,4) by auto
    ultimately show ?thesis
      using Cons.IH [OF step] Cons.prems(2) by simp
  next
    case False
    then have step: "wrap_loop fontSize maxWidth ws lines ?tentative = (lines', cur')"
      using Cons.prems(1) by (simp add: Let_def)
    have "fits_or_word fontSize maxWidth W ?tentative"
      using False by (simp add: fits_or_word_def)
    then show ?thesis
      using Cons.IH [OF step] Cons.prems(2,3) by simp
  qed
qed

lemma nonempty_words_append [simp]:
  "nonempty_words (a @ b) = nonempty_words a @ nonempty_words b"
  by (simp add: nonempty_words_def)

lemma nonempty_words_single:
  "space \<notin> set w \<Longrightarrow> nonempty_words [w] = (if w \<noteq> [] then [w] else [])"
  by (simp add: nonempty_words_def split_on_word)

lemma nonempty_words_join:
  "space \<notin> set w \<Longrightarrow> nonempty_words [cur @ [space] @ w] = nonempty_words [cur] @ nonempty_words [w]"
  by (simp add: nonempty_words_def split_on_append split_on_word)

lemma nonempty_words_Nil [simp]: "nonempty_words [[]] = []"
  by (simp add: nonempty_words_def)

lemma wrap_loop_words:
  "wrap_loop fontSize maxWidth ws lines cur = (lines', cur') \<Longrightarrow>
   \<forall>w \<in> set ws. space \<notin> set w \<Longrightarrow>
   nonempty_words (lines' @ [cur']) = nonempty_words (lines @ [cur]) @ filter (\<lambda>w. w \<noteq> []) ws"
proof (induction ws arbitrary: lines cur)
  case Nil
  then show ?case by simp
next
  case (Cons word ws)
  let ?tentative = "if cur \<noteq> [] then cur @ [space] @ word else word"
  have nosp: "space \<notin> set word" and rest: "\<forall>w \<in> set ws. space \<notin> set w"
    using Cons.prems(2) by simp_all
  show ?case
  proof (cases "too_wide fontSize maxWidth (length ?tentative)")
    case True
    then have step: "wrap_loop fontSize maxWidth ws (if cur \<noteq> [] then lines @ [cur] else lines) word
                 = (lines', cur')"
      using Cons.prems(1) by (simp add: Let_def)
    show ?thesis
      using Cons.IH [OF step rest] nosp
      by (auto simp: nonempty_words_single)
  next
    case False
    then have step: "wrap_loop fontSize maxWidth ws lines ?tentative = (lines', cur')"
      using Cons.prems(1) by (simp add: Let_def)
    have "nonempty_words [?tentative] = nonempty_words [cur] @ nonempty_words [word]"
      using nosp nonempty_words_join [of word cur] by simp
    moreover have "nonempty_words [word] = filter (\<lambda>w. w \<noteq> []) [word]"
      using nosp by (simp add: nonempty_words_single)
    ultimately show ?thesis
      using Cons.IH [OF step rest] by simp
  qed
qed

lemma wrapText_cases:
  obtains lines cur where
    "wrap_loop fontSize maxWidth (split_on space text) [] [] = (lines, cur)"
    "wrapText text fontSize maxWidth = (if cur \<noteq> [] then lines @ [cur] else lines)"
  by (cases "wrap_loop fontSize maxWidth (split_on space text) [] []")
     (simp add: wrapText_def)

lemma wrap_loop_lines_nonempty:
  "wrap_loop fontSize maxWidth ws lines cur = (lines', cur') \<Longrightarrow>
   \<forall>l \<in> set lines. l \<noteq> [] \<Longrightarrow> \<forall>l \<in> set lines'. l \<noteq> []"
proof (induction ws arbitrary: lines cur)
  case Nil
  then show ?case by simp
next
  case (Cons word ws)
  let ?tentative = "if cur \<noteq> [] then cur @ [space] @ word else word"
  show ?case
  proof (cases "too_wide fontSize maxWidth (length ?tentative)")
    case True
    then have step: "wrap_loop fontSize maxWidth ws (if cur \<noteq> [] then lines @ [cur] else lines) word
                 = (lines', cur')"
      using Cons.prems(1) by (simp add: Let_def)
    have "\<forall>l \<in> set (if cur \<noteq> [] then lines @ [cur] else lines). l \<noteq> []"
      using Cons.prems(2) by simp
    then show ?thesis
      by (rule Cons.IH [OF step])
  next
    case False
    then have step: "wrap_loop fontSize maxWidth ws lines ?tentative = (lines', cur')"
      using Cons.prems(1) by (simp add: Let_def)
    show ?thesis
      by (rule Cons.IH [OF step Cons.prems(2)])
  qed
qed

text \<open>
  C9. For every text, font size and maximum width (any number, \<open>NaN\<close> and the
  infinities included), every line \<open>wrapText\<close> returns is non-empty and either has
  an estimated width, as the code computes it in doubles, that does not exceed the
  maximum, or is a single word of the input that alone exceeds it; and the lines, split
  at spaces again, give back the non-empty words of the input in order, so no word is
  broken.
\<close>

theorem wrapText_lines_fit_or_single_word:
  "(\<forall>line \<in> set (wrapText text fontSize maxWidth).
      line \<noteq> [] \<and>
      (\<not> too_wide fontSize maxWidth (length line) \<or>
       (line \<in> set (split_on space text) \<and> too_wide fontSize maxWidth (length line)))) \<and>
   filter (\<lambda>w. w \<noteq> []) (concat (map (split_on space) (wrapText text fontSize maxWidth)))
     = filter (\<lambda>w. w \<noteq> []) (split_on space text)"
proof -
  obtain lines cur where
    loop: "wrap_loop fontSize maxWidth (split_on space text) [] [] = (lines, cur)" and
    res: "wrapText text fontSize maxWidth = (if cur \<noteq> [] then lines @ [cur] else lines)"
    by (rule wrapText_cases)
  let ?W = "set (split_on space text)"
  have fit: "(\<forall>l \<in> set lines. fits_or_word fontSize maxWidth ?W l) \<and>
             (cur \<noteq> [] \<longrightarrow> fits_or_word fontSize maxWidth ?W cur)"
    using wrap_loop_fit [OF loop, of ?W] by simp
  have ne: "\<forall>l \<in> set lines. l \<noteq> []"
    using wrap_loop_lines_nonempty [OF loop] by simp
  have "\<forall>w \<in> ?W. space \<notin> set w"
    by (simp add: split_on_no_sep)
  then have "nonempty_words (lines @ [cur]) = filter (\<lambda>w. w \<noteq> []) (split_on space text)"
    using wrap_loop_words [OF loop] by simp
  moreover have "nonempty_words (wrapText text fontSize maxWidth) = nonempty_words (lines @ [cur])"
    by (simp add: res)
  ultimately have words: "nonempty_words (wrapText text fontSize maxWidth)
      = filter (\<lambda>w. w \<noteq> []) (split_on space text)"
    by simp
  have "\<forall>line \<in> set (wrapText text fontSize maxWidth).
      line \<noteq> [] \<and> fits_or_word fontSize maxWidth ?W line"
    using fit ne by (auto simp: res)
  then show ?thesis
    using words by (auto simp: fits_or_word_def nonempty_words_def)
qed

text \<open>With font size 10 the estimate is 5.5 per code unit, computed in doubles.\<close>

lemma too_wide_10_30: "too_wide (Finite 10) (Finite 30) n \<longleftrightarrow> js_gt (js_mul (Finite (real n)) (Finite 5.5)) (Finite 30)"
  by (simp add: too_wide_def double_0_55) (simp add: double_eval)

lemma wrapText_example:
  "wrapText (js ''ab cd efghijk l'') (Finite 10) (Finite 30) = [js ''ab cd'', js ''efghijk'', js ''l'']"
  by (simp add: wrapText_def js_def space_def too_wide_10_30 Let_def) (simp add: double_eval)

text \<open>
  At a boundary the rounding decides: ten code units at font size 28 are estimated at
  \<open>154.00000000000003\<close>, which exceeds 154.
\<close>

lemma wrapText_rounding_example:
  "wrapText (js ''aaaa bbbbb'') (Finite 28) (Finite 154) = [js ''aaaa'', js ''bbbbb'']"
  by (simp add: wrapText_def js_def space_def too_wide_def double_0_55 Let_def)
     (simp add: double_eval)

lemma split_example:
  "split_on space (js ''ab cd efghijk l'') = [js ''ab'', js ''cd'', js ''efghijk'', js ''l'']"
  by (simp add: js_def space_def)

theorem wrapText_lines_fit_or_single_word_witness:
  "js ''efghijk'' \<in> set (wrapText (js ''ab cd efghijk l'') (Finite 10) (Finite 30)) \<and>
   too_wide (Finite 10) (Finite 30) (length (js ''efghijk'')) \<and>
   js ''efghijk'' \<in> set (split_on space (js ''ab cd efghijk l'')) \<and>
   js ''ab cd'' \<in> set (wrapText (js ''ab cd efghijk l'') (Finite 10) (Finite 30)) \<and>
   \<not> too_wide (Finite 10) (Finite 30) (length (js ''ab cd''))"
proof -
  have mem: "js ''efghijk'' \<in> set (wrapText (js ''ab cd efghijk l'') (Finite 10) (Finite 30))"
    by (simp add: wrapText_example)
  have wide: "too_wide (Finite 10) (Finite 30) (length (js ''efghijk''))"
    by (simp add: too_wide_10_30 js_def) (simp add: double_eval)
  have mem2: "js ''ab cd'' \<in> set (wrapText (js ''ab cd efghijk l'') (Finite 10) (Finite 30))"
    by (simp add: wrapText_example)
  have fit: "\<not> too_wide (Finite 10) (Finite 30) (length (js ''ab cd''))"
    by (simp add: too_wide_10_30 js_def) (simp add: double_eval)
  from wrapText_lines_fit_or_single_word [of "js ''ab cd efghijk l''" "Finite 10" "Finite 30"] mem wide
  have "js ''efghijk'' \<in> set (split_on space (js ''ab cd efghijk l''))"
    by blast
  with mem wide mem2 fit show ?thesis by blast
qed

section \<open>Properties of the sharpen pass\<close>

lemma quad_decode: "c < 4 \<Longrightarrow> (p * 4 + c) mod 4 = c \<and> (p * 4 + c) div 4 = (p::nat)"
  by simp

lemma getIndex_decode:
  "c < 4 \<Longrightarrow> (getIndex w x y + c) mod 4 = c \<and> (getIndex w x y + c) div 4 = y * w + x"
  unfolding getIndex_def by (rule quad_decode)

lemma pixel_decode:
  "x < w \<Longrightarrow> (y * w + x) mod w = x \<and> (y * w + x) div w = (y::nat)"
  by simp

lemma getIndex_encode:
  "getIndex w ((j div 4) mod w) ((j div 4) div w) + j mod 4 = j"
  by (simp add: getIndex_def)

lemma getIndex_bound:
  assumes "x < w" "y < h" "c < 4"
  shows "getIndex w x y + c < 4 * w * h"
proof -
  have "y * w + x < (y + 1) * w" using assms(1) by simp
  also have "\<dots> \<le> h * w" using assms(2) by (intro mult_le_mono1) simp
  finally have "y * w + x < h * w" .
  then have "(y * w + x) * 4 + c < h * w * 4" using assms(3) by simp
  then show ?thesis by (simp add: getIndex_def mult.commute mult.left_commute)
qed

lemma length_sharpen_pixel [simp]:
  "length (sharpen_pixel copy w ws buf x y) = length buf"
  by (simp add: sharpen_pixel_def Let_def)

lemma sharpen_pixel_nth:
  assumes "j < length buf" "x < w"
  shows "sharpen_pixel copy w ws buf x y ! j =
     (if j mod 4 < 3 \<and> (j div 4) mod w = x \<and> (j div 4) div w = y
      then stored_value copy w ws buf j else buf ! j)"
proof -
  let ?d = "getIndex w x y"
  have d4: "?d mod 4 = 0" "?d div 4 = y * w + x"
    by (simp_all add: getIndex_def)
  consider (r) "j = ?d" | (g) "j = ?d + 1" | (b) "j = ?d + 2"
    | (other) "j \<noteq> ?d" "j \<noteq> ?d + 1" "j \<noteq> ?d + 2"
    by blast
  then show ?thesis
  proof cases
    case r
    then have "j mod 4 = 0" "j div 4 = y * w + x" using d4 by simp_all
    then show ?thesis
      using assms r by (simp add: sharpen_pixel_def Let_def stored_value_def sample_def)
  next
    case g
    then have "j mod 4 = 1" "j div 4 = y * w + x"
      using getIndex_decode [of 1 w x y] by simp_all
    then show ?thesis
      using assms g by (simp add: sharpen_pixel_def Let_def stored_value_def sample_def)
  next
    case b
    then have "j mod 4 = 2" "j div 4 = y * w + x"
      using getIndex_decode [of 2 w x y] by simp_all
    then show ?thesis
      using assms b by (simp add: sharpen_pixel_def Let_def stored_value_def sample_def)
  next
    case other
    have neg: "\<not> (j mod 4 < 3 \<and> (j div 4) mod w = x \<and> (j div 4) div w = y)"
    proof
      assume a: "j mod 4 < 3 \<and> (j div 4) mod w = x \<and> (j div 4) div w = y"
      then have "j = ?d + j mod 4"
        using getIndex_encode [of w j] by simp
      moreover have "j mod 4 = 0 \<or> j mod 4 = 1 \<or> j mod 4 = 2"
        using a by linarith
      ultimately show False
        using other by auto
    qed
    have eq: "sharpen_pixel copy w ws buf x y ! j = buf ! j"
      using other by (simp add: sharpen_pixel_def Let_def)
    show ?thesis
      unfolding if_not_P [OF neg] by (rule eq)
  qed
qed


lemma foldl_rows:
  "foldl (\<lambda>buf y. foldl (\<lambda>buf x. f buf x y) buf xs) buf ys
     = foldl (\<lambda>buf (y, x). f buf x y) buf (List.product ys xs)"
proof (induction ys arbitrary: buf)
  case Nil
  show ?case by simp
next
  case (Cons y ys)
  have "foldl (\<lambda>buf (y, x). f buf x y) buf (map (Pair y) xs) = foldl (\<lambda>buf x. f buf x y) buf xs"
    by (simp add: foldl_map)
  then show ?case
    using Cons.IH by simp
qed

lemma length_foldl_sharpen [simp]:
  "length (foldl (\<lambda>buf (y, x). sharpen_pixel copy w ws buf x y) buf ps) = length buf"
  by (induction ps arbitrary: buf) auto

lemma foldl_sharpen_nth:
  assumes "distinct ps" "\<forall>(y, x) \<in> set ps. x < w" "j < length buf"
  shows "foldl (\<lambda>buf (y, x). sharpen_pixel copy w ws buf x y) buf ps ! j =
     (if j mod 4 < 3 \<and> ((j div 4) div w, (j div 4) mod w) \<in> set ps
      then stored_value copy w ws buf j else buf ! j)"
  using assms
proof (induction ps arbitrary: buf)
  case Nil
  show ?case by simp
next
  case (Cons p ps)
  obtain y x where p: "p = (y, x)" by (cases p)
  let ?buf1 = "sharpen_pixel copy w ws buf x y"
  have xw: "x < w" using Cons.prems(2) p by simp
  have j1: "j < length ?buf1" using Cons.prems(3) by simp
  have first: "?buf1 ! j =
     (if j mod 4 < 3 \<and> (j div 4) mod w = x \<and> (j div 4) div w = y
      then stored_value copy w ws buf j else buf ! j)"
    by (rule sharpen_pixel_nth [OF Cons.prems(3) xw])
  have IH: "foldl (\<lambda>buf (y, x). sharpen_pixel copy w ws buf x y) ?buf1 ps ! j =
     (if j mod 4 < 3 \<and> ((j div 4) div w, (j div 4) mod w) \<in> set ps
      then stored_value copy w ws ?buf1 j else ?buf1 ! j)"
    using Cons.IH [of ?buf1] Cons.prems j1 by simp
  show ?case
  proof (cases "j mod 4 < 3 \<and> ((j div 4) div w, (j div 4) mod w) \<in> set ps")
    case True
    then have "((j div 4) div w, (j div 4) mod w) \<noteq> (y, x)"
      using Cons.prems(1) p by auto
    then have "?buf1 ! j = buf ! j"
      using first by auto
    then have "stored_value copy w ws ?buf1 j = stored_value copy w ws buf j"
      by (simp add: stored_value_def sample_def)
    then show ?thesis
      using IH True p by simp
  next
    case False
    then show ?thesis
      using IH first p by auto
  qed
qed

lemma applySharpen_dims [simp]:
  "width (applySharpen img s) = width img"
  "height (applySharpen img s) = height img"
  "length (data (applySharpen img s)) = length (data img)"
  by (simp_all add: applySharpen_def Let_def foldl_rows)

lemma applySharpen_nth:
  assumes "j < length (data img)"
  shows "data (applySharpen img s) ! j =
     (if j mod 4 < 3 \<and> 1 \<le> (j div 4) mod width img \<and> (j div 4) mod width img < width img - 1
          \<and> 1 \<le> (j div 4) div width img \<and> (j div 4) div width img < height img - 1
      then stored_value (data img) (width img) (weights s) (data img) j
      else data img ! j)"
proof -
  let ?ps = "List.product [1 ..< height img - 1] [1 ..< width img - 1]"
  have d: "distinct ?ps" by (simp add: distinct_product)
  have b: "\<forall>(y, x) \<in> set ?ps. x < width img" by auto
  have "data (applySharpen img s) =
      foldl (\<lambda>buf (y, x). sharpen_pixel (data img) (width img) (weights s) buf x y) (data img) ?ps"
    by (simp add: applySharpen_def Let_def foldl_rows)
  then show ?thesis
    using foldl_sharpen_nth [OF d b assms, of "data img" "weights s"] by auto
qed

lemma center_image_data:
  "data (center_image c v) =
     [v, v, v, 255, v, v, v, 255, v, v, v, 255,
      v, v, v, 255, c, c, c, 255, v, v, v, 255,
      v, v, v, 255, v, v, v, 255, v, v, v, 255]"
  by (simp add: center_image_def upt_rec [of 0] upt_rec [of "Suc _"])

lemma upt_1_2: "[Suc 0 ..< 2] = [Suc 0]"
  by (simp add: upt_rec)

text \<open>Numerals below \<open>2^53\<close> are doubles.\<close>

lemma round_to_double_numeral:
  "numeral n < (2 :: real) ^ 53 \<Longrightarrow> round_to_double (numeral n) = Finite (numeral n)"
  "numeral n < (2 :: real) ^ 53 \<Longrightarrow> round_to_double (- numeral n) = Finite (- numeral n)"
  "round_to_double 1 = Finite 1"
  "round_to_double (- 1) = Finite (- 1)"
  using round_to_double_int [of "numeral n"] round_to_double_int [of "- numeral n"]
        round_to_double_int [of 1] round_to_double_int [of "- 1"]
  by simp_all

lemma round_to_double_0: "round_to_double 0 = Finite 0"
  by (simp add: round_to_double_def)

lemmas int_eval = round_to_double_numeral round_to_double_0

text \<open>The pass on the 3 by 3 sample images: one pixel, the centre, is processed.\<close>

lemma applySharpen_center_image:
  "data (applySharpen (center_image c v) s)
     = sharpen_pixel (data (center_image c v)) 3 (weights s) (data (center_image c v)) 1 1"
  by (simp add: applySharpen_def center_image_def upt_1_2 Let_def)

lemma accumulate_white_on_black:
  "accumulate (data (center_image 255 0)) 3 (weights 1) 1 1 0 = Finite 1275"
  "accumulate (data (center_image 255 0)) 3 (weights 1) 1 1 1 = Finite 1275"
  "accumulate (data (center_image 255 0)) 3 (weights 1) 1 1 2 = Finite 1275"
  by (simp_all add: accumulate_def weights_def kernel_offsets_def center_image_data
      getIndex_def sample_def int_eval)

lemma accumulate_grey_1:
  "accumulate (data (center_image 100 90)) 3 (weights 1) 1 1 0 = Finite 140"
  "accumulate (data (center_image 100 90)) 3 (weights 1) 1 1 1 = Finite 140"
  "accumulate (data (center_image 100 90)) 3 (weights 1) 1 1 2 = Finite 140"
  by (simp_all add: accumulate_def weights_def kernel_offsets_def center_image_data
      getIndex_def sample_def int_eval)

lemma accumulate_grey_5:
  "accumulate (data (center_image 100 90)) 3 (weights 5) 1 1 0 = Finite 300"
  by (simp_all add: accumulate_def weights_def kernel_offsets_def center_image_data
      getIndex_def sample_def int_eval)

lemma accumulate_grey_0:
  "accumulate (data (center_image 100 90)) 3 (weights 0) 1 1 0 = Finite 100"
  by (simp_all add: accumulate_def weights_def kernel_offsets_def center_image_data
      getIndex_def sample_def int_eval)

lemma spot_unchanged: "applySharpen (center_image 255 0) 1 = center_image 255 0"
proof -
  have "data (applySharpen (center_image 255 0) 1) = data (center_image 255 0)"
    unfolding applySharpen_center_image
    using accumulate_white_on_black
    by (simp add: sharpen_pixel_def Let_def getIndex_def center_image_data sample_def int_eval)
  then show ?thesis
    by (simp add: applySharpen_def Let_def)
qed

lemma sharpen5: "data (applySharpen (center_image 100 90) 5) ! 16 = 255"
  unfolding applySharpen_center_image
  using accumulate_grey_5
  by (simp add: sharpen_pixel_def Let_def getIndex_def center_image_data sample_def int_eval)

lemma sharpen1: "data (applySharpen (center_image 100 90) 1) ! 16 = 240"
  unfolding applySharpen_center_image
  using accumulate_grey_1
  by (simp add: sharpen_pixel_def Let_def getIndex_def center_image_data sample_def int_eval
      round_half_even_def)

lemma sharpen0: "data (applySharpen (center_image 100 90) 0) ! 16 = 200"
  unfolding applySharpen_center_image
  using accumulate_grey_0
  by (simp add: sharpen_pixel_def Let_def getIndex_def center_image_data sample_def int_eval
      round_half_even_def)

lemma center_image_wf: "wf_image (center_image c v)"
  by (simp add: wf_image_def center_image_data) (simp add: center_image_def)

lemma center_image_dims: "width (center_image c v) = 3" "height (center_image c v) = 3"
  by (simp_all add: center_image_def)

text \<open>
  C10. The sharpen pass keeps the dimensions and the buffer length, and every alpha
  sample (buffer index 3 modulo 4) of the output equals that of the input, for every
  image and every intensity.
\<close>

theorem applySharpen_preserves_alpha:
  "width (applySharpen img s) = width img \<and> height (applySharpen img s) = height img \<and>
   length (data (applySharpen img s)) = length (data img) \<and>
   (\<forall>i < length (data img). i mod 4 = 3 \<longrightarrow> data (applySharpen img s) ! i = data img ! i)"
  by (simp add: applySharpen_nth)

theorem applySharpen_preserves_alpha_witness:
  "(19::nat) < length (data (center_image 100 90)) \<and> (19::nat) mod 4 = 3 \<and>
   data (applySharpen (center_image 100 90) 1) ! 19 = 255 \<and>
   data (center_image 100 90) ! 19 = 255"
proof -
  have len: "(19::nat) < length (data (center_image 100 90))"
    by (simp add: center_image_data)
  have m: "(19::nat) mod 4 = 3" by simp
  have old: "data (center_image 100 90) ! 19 = 255"
    by (simp add: center_image_data)
  from applySharpen_preserves_alpha [of "center_image 100 90" 1] len m
  have "data (applySharpen (center_image 100 90) 1) ! 19 = data (center_image 100 90) ! 19"
    by blast
  with len m old show ?thesis by simp
qed

text \<open>
  C7, as stated, fails: in the 3 by 3 image with a white centre on black, sharpened
  with intensity 1, the interior pixel has non-zero local contrast and keeps its
  value, because the sum saturates at 255.
\<close>

theorem applySharpen_saturated_pixel_unchanged:
  "wf_image (center_image 255 0) \<and>
   width (center_image 255 0) > 2 \<and> height (center_image 255 0) > 2 \<and> (1::real) > 0 \<and>
   data (center_image 255 0) ! getIndex 3 1 1 \<noteq> data (center_image 255 0) ! getIndex 3 0 1 \<and>
   applySharpen (center_image 255 0) 1 = center_image 255 0"
  by (simp add: center_image_wf center_image_dims spot_unchanged)
     (simp add: center_image_data getIndex_def)

text \<open>
  C7, amended. In a well-formed image, for every finite intensity, the pass leaves all
  four samples of every pixel of the first and last row and column unchanged, and sets
  each colour sample of every other pixel to the stored form of
  \<open>clamp (original + accumulator)\<close>, where the accumulator is the weighted sum over
  the 3 by 3 neighbourhood of the snapshot, added up in doubles in the order of the
  kernel loop. That value may equal the original.
\<close>

theorem applySharpen_border_and_interior:
  assumes "wf_image img" "x < width img" "y < height img"
  shows "(x = 0 \<or> y = 0 \<or> x = width img - 1 \<or> y = height img - 1 \<longrightarrow>
           (\<forall>c < 4. data (applySharpen img s) ! (getIndex (width img) x y + c)
                      = data img ! (getIndex (width img) x y + c))) \<and>
         (1 \<le> x \<and> x < width img - 1 \<and> 1 \<le> y \<and> y < height img - 1 \<longrightarrow>
           (\<forall>c < 3. data (applySharpen img s) ! (getIndex (width img) x y + c)
                      = toUint8Clamp (clamp (js_add (sample (data img) (getIndex (width img) x y + c))
                          (accumulate (data img) (width img) (weights s) x y c)))))"
proof -
  let ?w = "width img"
  have idx: "getIndex ?w x y + c < length (data img)" if "c < 4" for c
    using getIndex_bound [OF assms(2,3) that] assms(1) by (simp add: wf_image_def)
  have dec: "(getIndex ?w x y + c) mod 4 = c \<and> ((getIndex ?w x y + c) div 4) mod ?w = x
        \<and> ((getIndex ?w x y + c) div 4) div ?w = y" if "c < 4" for c
    using getIndex_decode [OF that, of ?w x y] pixel_decode [OF assms(2), of y] by simp
  show ?thesis
  proof (intro conjI impI allI)
    fix c :: nat
    assume border: "x = 0 \<or> y = 0 \<or> x = ?w - 1 \<or> y = height img - 1" and c: "c < 4"
    show "data (applySharpen img s) ! (getIndex ?w x y + c) = data img ! (getIndex ?w x y + c)"
      using applySharpen_nth [OF idx [OF c], of s] dec [OF c] border by auto
  next
    fix c :: nat
    assume inner: "1 \<le> x \<and> x < ?w - 1 \<and> 1 \<le> y \<and> y < height img - 1" and c: "c < 3"
    then have c4: "c < 4" by simp
    show "data (applySharpen img s) ! (getIndex ?w x y + c)
          = toUint8Clamp (clamp (js_add (sample (data img) (getIndex ?w x y + c))
              (accumulate (data img) ?w (weights s) x y c)))"
      using applySharpen_nth [OF idx [OF c4], of s] dec [OF c4] inner c
      by (simp add: stored_value_def)
  qed
qed

theorem applySharpen_border_and_interior_witness:
  "wf_image (center_image 100 90) \<and>
   (1::nat) < width (center_image 100 90) \<and> (1::nat) < height (center_image 100 90) \<and>
   (1::nat) < width (center_image 100 90) - 1 \<and> (1::nat) < height (center_image 100 90) - 1 \<and>
   data (applySharpen (center_image 100 90) 1) ! (getIndex 3 1 1 + 0) = 240 \<and>
   data (applySharpen (center_image 100 90) 1) ! (getIndex 3 0 1 + 0) = 90"
proof -
  let ?img = "center_image 100 90"
  have wf: "wf_image ?img" by (rule center_image_wf)
  have x: "(1::nat) < width ?img" and y: "(1::nat) < height ?img" and x0: "(0::nat) < width ?img"
    by (simp_all add: center_image_dims)
  have inner: "(1::nat) \<le> 1 \<and> (1::nat) < width ?img - 1 \<and> (1::nat) \<le> 1 \<and> (1::nat) < height ?img - 1"
    by (simp add: center_image_dims)
  have acc: "accumulate (data ?img) 3 (weights 1) 1 1 0 = Finite 140"
    by (rule accumulate_grey_1)
  from applySharpen_border_and_interior [OF wf x y, of 1] inner
  have "\<forall>c < 3. data (applySharpen ?img 1) ! (getIndex (width ?img) 1 1 + c)
          = toUint8Clamp (clamp (js_add (sample (data ?img) (getIndex (width ?img) 1 1 + c))
              (accumulate (data ?img) (width ?img) (weights 1) 1 1 c)))"
    by blast
  from this [rule_format, of 0]
  have "data (applySharpen ?img 1) ! (getIndex 3 1 1 + 0)
          = toUint8Clamp (clamp (js_add (sample (data ?img) (getIndex 3 1 1 + 0))
              (accumulate (data ?img) 3 (weights 1) 1 1 0)))"
    by (simp add: center_image_dims)
  also have "\<dots> = 240"
    unfolding acc by (simp add: center_image_data getIndex_def sample_def int_eval round_half_even_def)
  finally have interior: "data (applySharpen ?img 1) ! (getIndex 3 1 1 + 0) = 240" .
  from applySharpen_border_and_interior [OF wf x0 y, of 1]
  have "\<forall>c < 4. data (applySharpen ?img 1) ! (getIndex (width ?img) 0 1 + c)
          = data ?img ! (getIndex (width ?img) 0 1 + c)"
    by blast
  from this [rule_format, of 0]
  have "data (applySharpen ?img 1) ! (getIndex 3 0 1 + 0) = data ?img ! (getIndex 3 0 1 + 0)"
    by (simp add: center_image_dims)
  also have "\<dots> = 90"
    by (simp add: center_image_data getIndex_def)
  finally have border: "data (applySharpen ?img 1) ! (getIndex 3 0 1 + 0) = 90" .
  show ?thesis
    using wf inner x y interior border by simp
qed

section \<open>Properties of the enhancement pass\<close>

lemma enhanceOne_Inr:
  assumes "enhanceOne env file opts = Inr res"
  obtains bm b where
    "createImageBitmap env file = Some bm"
    "getContext env (width bm * scale opts) (height bm * scale opts)"
    "width bm * scale opts \<noteq> 0" "height bm * scale opts \<noteq> 0"
    "canvas res = (if sharpen opts > 0 then applySharpen (resampled env bm opts) (sharpen opts)
                   else resampled env bm opts)"
    "canvasToBlob env (canvas res) = Some b" "blob res = b"
  using assms
  by (auto simp: enhanceOne_def Let_def split: option.splits if_splits)

lemma resampled_test:
  "resampled (test_browser img) img (test_options s) = img"
  by (simp add: resampled_def test_browser_def test_options_def Let_def)

lemma enhanceOne_test:
  "width img \<noteq> 0 \<Longrightarrow> height img \<noteq> 0 \<Longrightarrow>
   enhanceOne (test_browser img) (Suc n) (test_options s) =
     Inr \<lparr>canvas = (if s > 0 then applySharpen img s else img),
          blob = \<lparr>content = data (if s > 0 then applySharpen img s else img), mime = ''image/png''\<rparr>\<rparr>"
  using resampled_test [of img s]
  by (simp add: enhanceOne_def Let_def test_browser_def test_options_def)

lemma enhanceOne_test_grey:
  "enhanceOne (test_browser (center_image 100 90)) (Suc n) (test_options s) =
     Inr \<lparr>canvas = (if s > 0 then applySharpen (center_image 100 90) s else center_image 100 90),
          blob = \<lparr>content = data (if s > 0 then applySharpen (center_image 100 90) s
                                   else center_image 100 90),
                  mime = ''image/png''\<rparr>\<rparr>"
  by (rule enhanceOne_test) (simp_all add: center_image_dims)

lemma enhanceOne_test_corrupt:
  "enhanceOne (test_browser img) 0 opts = Inl CreateImageBitmapRejected"
  by (simp add: enhanceOne_def test_browser_def)

text \<open>
  C8. With sharpen intensity 0 the canvas \<open>enhanceOne\<close> returns is the resampled
  buffer itself: the branch \<open>opts.sharpen > 0\<close> is not taken and the convolution
  does not run.
\<close>

theorem enhanceOne_sharpen_zero:
  "sharpen opts = 0 \<Longrightarrow> enhanceOne env file opts = Inr res \<Longrightarrow>
   \<exists>bm. createImageBitmap env file = Some bm \<and> canvas res = resampled env bm opts"
  by (erule enhanceOne_Inr) simp

theorem enhanceOne_sharpen_zero_witness:
  "sharpen (test_options 0) = 0 \<and>
   enhanceOne (test_browser (center_image 100 90)) 1 (test_options 0)
     = Inr \<lparr>canvas = center_image 100 90,
            blob = \<lparr>content = data (center_image 100 90), mime = ''image/png''\<rparr>\<rparr> \<and>
   createImageBitmap (test_browser (center_image 100 90)) 1 = Some (center_image 100 90) \<and>
   resampled (test_browser (center_image 100 90)) (center_image 100 90) (test_options 0)
     = center_image 100 90"
proof -
  let ?env = "test_browser (center_image 100 90)"
  let ?res = "\<lparr>canvas = center_image 100 90,
            blob = \<lparr>content = data (center_image 100 90), mime = ''image/png''\<rparr>\<rparr>"
  have z: "sharpen (test_options 0) = 0" by (simp add: test_options_def)
  have e: "enhanceOne ?env 1 (test_options 0) = Inr ?res"
    using enhanceOne_test_grey [of 0 0] by simp
  have bm: "createImageBitmap ?env 1 = Some (center_image 100 90)"
    by (simp add: test_browser_def)
  from enhanceOne_sharpen_zero [OF z e] bm
  have "canvas ?res = resampled ?env (center_image 100 90) (test_options 0)"
    by auto
  with z e bm show ?thesis by simp
qed

text \<open>
  The guard matters: \<open>applySharpen\<close> itself, run with intensity 0, adds each interior
  colour sample to itself.
\<close>

lemma applySharpen_zero_doubles:
  "data (center_image 100 90) ! 16 = 100 \<and>
   data (applySharpen (center_image 100 90) 0) ! 16 = 200"
  by (simp add: sharpen0 center_image_data)

text \<open>
  C5, as stated, fails: with sharpen 5, outside 0..1, the convolution runs with
  intensity 5 and the centre sample of the test image becomes 255; run with the
  clamped intensity 1 it would become 240.
\<close>

theorem enhanceOne_sharpen_not_clamped:
  "enhanceOne (test_browser (center_image 100 90)) 1 (test_options 5)
     = Inr \<lparr>canvas = applySharpen (center_image 100 90) 5,
            blob = \<lparr>content = data (applySharpen (center_image 100 90) 5), mime = ''image/png''\<rparr>\<rparr> \<and>
   data (applySharpen (center_image 100 90) 5) ! 16 = 255 \<and>
   data (applySharpen (center_image 100 90) 1) ! 16 = 240"
  using enhanceOne_test_grey [of 0 5] sharpen5 sharpen1
  by simp

text \<open>
  C5, amended. \<open>enhanceOne\<close> neither clamps nor rejects brightness, saturation or
  sharpen. It succeeds exactly when the file decodes, the canvas context is available,
  the scaled canvas has pixels (which a scale of 0 prevents) and the encoder returns a
  blob for the final canvas. The final canvas is what the browser draws through the
  filter with the brightness and saturation as given, sharpened with the sharpen value
  as given when that is positive and left as drawn otherwise.
\<close>

theorem enhanceOne_passes_parameters_through:
  "(enhanceOne env file opts = Inr res) =
     (\<exists>bm b.
        createImageBitmap env file = Some bm \<and>
        getContext env (width bm * scale opts) (height bm * scale opts) \<and>
        width bm * scale opts \<noteq> 0 \<and> height bm * scale opts \<noteq> 0 \<and>
        canvasToBlob env
          (if sharpen opts > 0 then applySharpen (resampled env bm opts) (sharpen opts)
           else resampled env bm opts) = Some b \<and>
        res = \<lparr>canvas = (if sharpen opts > 0
                            then applySharpen (resampled env bm opts) (sharpen opts)
                            else resampled env bm opts),
                 blob = b\<rparr>) \<and>
   (createImageBitmap env file = Some bm \<longrightarrow>
      resampled env bm opts
        = \<lparr>width = width bm * scale opts, height = height bm * scale opts,
           data = drawImage env (BrightnessSaturate (brightness opts) (saturation opts)) bm
                    (width bm * scale opts) (height bm * scale opts)\<rparr>)"
proof (intro conjI impI)
  show "(enhanceOne env file opts = Inr res) =
     (\<exists>bm b.
        createImageBitmap env file = Some bm \<and>
        getContext env (width bm * scale opts) (height bm * scale opts) \<and>
        width bm * scale opts \<noteq> 0 \<and> height bm * scale opts \<noteq> 0 \<and>
        canvasToBlob env
          (if sharpen opts > 0 then applySharpen (resampled env bm opts) (sharpen opts)
           else resampled env bm opts) = Some b \<and>
        res = \<lparr>canvas = (if sharpen opts > 0
                            then applySharpen (resampled env bm opts) (sharpen opts)
                            else resampled env bm opts),
                 blob = b\<rparr>)"
    by (cases "createImageBitmap env file")
       (auto simp: enhanceOne_def Let_def split: option.splits)
next
  show "resampled env bm opts
        = \<lparr>width = width bm * scale opts, height = height bm * scale opts,
           data = drawImage env (BrightnessSaturate (brightness opts) (saturation opts)) bm
                    (width bm * scale opts) (height bm * scale opts)\<rparr>"
    by (simp add: resampled_def Let_def)
qed

theorem enhanceOne_passes_parameters_through_witness:
  "createImageBitmap (test_browser (center_image 100 90)) 1 = Some (center_image 100 90) \<and>
   enhanceOne (test_browser (center_image 100 90)) 1 (test_options 5)
     = Inr \<lparr>canvas = applySharpen (center_image 100 90) 5,
            blob = \<lparr>content = data (applySharpen (center_image 100 90) 5), mime = ''image/png''\<rparr>\<rparr> \<and>
   resampled (test_browser (center_image 100 90)) (center_image 100 90) (test_options 5)
     = \<lparr>width = 3, height = 3,
        data = drawImage (test_browser (center_image 100 90)) (BrightnessSaturate 1 1)
                 (center_image 100 90) 3 3\<rparr>"
proof -
  let ?env = "test_browser (center_image 100 90)"
  let ?res = "\<lparr>canvas = applySharpen (center_image 100 90) 5,
            blob = \<lparr>content = data (applySharpen (center_image 100 90) 5), mime = ''image/png''\<rparr>\<rparr>"
  have bm: "createImageBitmap ?env 1 = Some (center_image 100 90)"
    by (simp add: test_browser_def)
  have ctx: "getContext ?env 3 3"
    by (simp add: test_browser_def)
  have r: "resampled ?env (center_image 100 90) (test_options 5) = center_image 100 90"
    by (rule resampled_test)
  have enc: "canvasToBlob ?env (applySharpen (center_image 100 90) 5)
      = Some \<lparr>content = data (applySharpen (center_image 100 90) 5), mime = ''image/png''\<rparr>"
    by (simp add: test_browser_def)
  have o: "sharpen (test_options 5) = 5" "scale (test_options 5) = 1"
          "brightness (test_options 5) = 1" "saturation (test_options 5) = 1"
    by (simp_all add: test_options_def)
  note inst = enhanceOne_passes_parameters_through
      [of ?env 1 "test_options 5" ?res "center_image 100 90"]
  have "enhanceOne ?env 1 (test_options 5) = Inr ?res"
    using inst bm ctx r enc o by (simp add: center_image_dims)
  moreover have "resampled ?env (center_image 100 90) (test_options 5)
     = \<lparr>width = 3, height = 3,
        data = drawImage ?env (BrightnessSaturate 1 1) (center_image 100 90) 3 3\<rparr>"
    using inst bm o by (simp add: center_image_dims)
  ultimately show ?thesis
    using bm by simp
qed

section \<open>Properties of batch processing\<close>

lemma process_one_enhance_fails:
  "isl (enhanceOne env file opts) \<Longrightarrow> isl (process_one env opts modelReady brand vibe file)"
  by (cases "enhanceOne env file opts") (simp_all add: process_one_def)

lemma process_one_Inl:
  "enhanceOne env file opts = Inl e \<Longrightarrow> process_one env opts modelReady brand vibe file = Inl e"
  by (simp add: process_one_def)

text \<open>
  The loop over a batch whose first failure is at \<open>f\<close>: the files before it and
  \<open>f\<close> are started, those after it are not, and the error of \<open>f\<close> comes out.
\<close>

lemma process_loop_first_failure:
  "\<forall>g \<in> set pre. \<not> isl (process_one env opts modelReady brand vibe g) \<Longrightarrow>
   process_one env opts modelReady brand vibe f = Inl e \<Longrightarrow>
   process_loop env opts modelReady brand vibe (pre @ f # rest) urls results
     = (urls @ pre @ [f], Inl e)"
proof (induction pre arbitrary: urls results)
  case Nil
  then show ?case by simp
next
  case (Cons g pre)
  then obtain entry where "process_one env opts modelReady brand vibe g = Inr entry"
    by (cases "process_one env opts modelReady brand vibe g") auto
  then show ?case
    using Cons by simp
qed

lemma process_loop_success:
  "\<forall>f \<in> set files. \<not> isl (process_one env opts modelReady brand vibe f) \<Longrightarrow>
   process_loop env opts modelReady brand vibe files urls results
     = (urls @ files,
        Inr (results @ map (\<lambda>f. projr (process_one env opts modelReady brand vibe f)) files))"
proof (induction files arbitrary: urls results)
  case Nil
  then show ?case by simp
next
  case (Cons f0 files)
  then obtain entry where "process_one env opts modelReady brand vibe f0 = Inr entry"
    by (cases "process_one env opts modelReady brand vibe f0") auto
  then show ?case
    using Cons by simp
qed

text \<open>A batch with a failing file has a first one.\<close>

lemma first_failure:
  "\<exists>f \<in> set files. isl (process_one env opts modelReady brand vibe f) \<Longrightarrow>
   \<exists>pre f rest e. files = pre @ f # rest \<and>
      (\<forall>g \<in> set pre. \<not> isl (process_one env opts modelReady brand vibe g)) \<and>
      process_one env opts modelReady brand vibe f = Inl e"
proof -
  assume "\<exists>f \<in> set files. isl (process_one env opts modelReady brand vibe f)"
  then obtain pre f rest where
    "files = pre @ f # rest" "isl (process_one env opts modelReady brand vibe f)"
    "\<forall>g \<in> set pre. \<not> isl (process_one env opts modelReady brand vibe g)"
    using split_list_first_prop [of files "\<lambda>f. isl (process_one env opts modelReady brand vibe f)"]
    by blast
  moreover from this obtain e where "process_one env opts modelReady brand vibe f = Inl e"
    by (cases "process_one env opts modelReady brand vibe f") auto
  ultimately show ?thesis by blast
qed

lemma process_one_test:
  "process_one (test_browser (center_image 100 90)) (test_options s) False [] ''casual'' (Suc n)
     = Inr (test_entry (center_image 100 90) s)"
proof -
  have "scale (test_options s) = 1" by (simp add: test_options_def)
  then show ?thesis
    by (simp add: process_one_def enhanceOne_test_grey test_entry_def center_image_dims)
       (simp add: test_browser_def)
qed

lemma process_one_test_corrupt:
  "process_one (test_browser img) opts False [] ''casual'' 0 = Inl CreateImageBitmapRejected"
  by (simp add: process_one_def enhanceOne_test_corrupt)

text \<open>
  C3, as stated, fails: file 1 is enhanced without error and file 0 cannot be decoded.
  Alone, file 1 is delivered to the gallery; in the batches \<open>[1, 0]\<close> and
  \<open>[0, 1]\<close> nothing is delivered.
\<close>

theorem processFiles_failure_drops_batch:
  "enhanceOne (test_browser (center_image 100 90)) 1 (test_options 0)
     = Inr \<lparr>canvas = center_image 100 90,
            blob = \<lparr>content = data (center_image 100 90), mime = ''image/png''\<rparr>\<rparr> \<and>
   enhanceOne (test_browser (center_image 100 90)) 0 (test_options 0) = Inl CreateImageBitmapRejected \<and>
   enhanced (processFiles (test_browser (center_image 100 90)) (test_options 0) False [] ''casual''
              empty_state [1]) = [test_entry (center_image 100 90) 0] \<and>
   enhanced (processFiles (test_browser (center_image 100 90)) (test_options 0) False [] ''casual''
              empty_state [1, 0]) = [] \<and>
   enhanced (processFiles (test_browser (center_image 100 90)) (test_options 0) False [] ''casual''
              empty_state [0, 1]) = []"
  using enhanceOne_test_grey [of 0 0] process_one_test [of 0 0]
  by (simp add: enhanceOne_test_corrupt process_one_test_corrupt processFiles_def Let_def empty_state_def)

text \<open>
  C3, amended. The first image of a batch whose enhancement or detection fails ends
  the batch: the images after it are not started, the error is logged, the gallery is
  left as it was, so that no result of the batch is delivered, not even those of the
  images before it, and the processing flag is cleared. A failure of \<open>enhanceOne\<close>
  is such a failure, and whenever enhancing some image of the batch fails the gallery
  is unchanged and one error is logged. When every image of the batch is processed
  without error, all are started, the entries of all are put in front of the gallery
  in batch order, and nothing is logged.
\<close>

theorem processFiles_all_or_nothing:
  "((\<forall>g \<in> set pre. \<not> isl (process_one env opts modelReady brand vibe g)) \<and>
    process_one env opts modelReady brand vibe f = Inl e \<longrightarrow>
      processFiles env opts modelReady brand vibe st (pre @ f # rest)
        = st\<lparr>original_urls := original_urls st @ pre @ [f],
             console := console st @ [e],
             processing := False\<rparr>) \<and>
   (enhanceOne env f opts = Inl e \<longrightarrow> process_one env opts modelReady brand vibe f = Inl e) \<and>
   ((\<exists>f \<in> set files. isl (enhanceOne env f opts)) \<longrightarrow>
      enhanced (processFiles env opts modelReady brand vibe st files) = enhanced st \<and>
      length (console (processFiles env opts modelReady brand vibe st files))
        = Suc (length (console st)) \<and>
      processing (processFiles env opts modelReady brand vibe st files) = False) \<and>
   ((\<forall>f \<in> set files. \<not> isl (process_one env opts modelReady brand vibe f)) \<longrightarrow>
      enhanced (processFiles env opts modelReady brand vibe st files)
        = map (\<lambda>f. projr (process_one env opts modelReady brand vibe f)) files @ enhanced st \<and>
      console (processFiles env opts modelReady brand vibe st files) = console st \<and>
      original_urls (processFiles env opts modelReady brand vibe st files)
        = original_urls st @ files)"
proof -
  have abort: "processFiles env opts modelReady brand vibe st (pre @ f # rest)
        = st\<lparr>original_urls := original_urls st @ pre @ [f],
             console := console st @ [e],
             processing := False\<rparr>"
    if "\<forall>g \<in> set pre. \<not> isl (process_one env opts modelReady brand vibe g)"
       "process_one env opts modelReady brand vibe f = Inl e" for pre f rest e
    using process_loop_first_failure [OF that, of rest "original_urls st" "[]"]
    by (simp add: processFiles_def Let_def)
  have any: "enhanced (processFiles env opts modelReady brand vibe st files) = enhanced st \<and>
      length (console (processFiles env opts modelReady brand vibe st files))
        = Suc (length (console st)) \<and>
      processing (processFiles env opts modelReady brand vibe st files) = False"
    if "\<exists>f \<in> set files. isl (enhanceOne env f opts)"
  proof -
    from that have "\<exists>f \<in> set files. isl (process_one env opts modelReady brand vibe f)"
      using process_one_enhance_fails [of env _ opts modelReady brand vibe] by blast
    from first_failure [OF this] obtain pre f rest e where
      "files = pre @ f # rest"
      "\<forall>g \<in> set pre. \<not> isl (process_one env opts modelReady brand vibe g)"
      "process_one env opts modelReady brand vibe f = Inl e"
      by blast
    then show ?thesis
      using abort [of pre f e rest] by simp
  qed
  have good: "enhanced (processFiles env opts modelReady brand vibe st files)
        = map (\<lambda>f. projr (process_one env opts modelReady brand vibe f)) files @ enhanced st \<and>
      console (processFiles env opts modelReady brand vibe st files) = console st \<and>
      original_urls (processFiles env opts modelReady brand vibe st files)
        = original_urls st @ files"
    if "\<forall>f \<in> set files. \<not> isl (process_one env opts modelReady brand vibe f)"
    using process_loop_success [OF that, of "original_urls st" "[]"]
    by (simp add: processFiles_def Let_def)
  show ?thesis
    using abort [of pre f e rest] any good process_one_Inl [of env f opts e modelReady brand vibe]
    by blast
qed

theorem processFiles_all_or_nothing_witness:
  "\<not> isl (process_one (test_browser (center_image 100 90)) (test_options 0) False [] ''casual'' 1) \<and>
   process_one (test_browser (center_image 100 90)) (test_options 0) False [] ''casual'' 0
     = Inl CreateImageBitmapRejected \<and>
   processFiles (test_browser (center_image 100 90)) (test_options 0) False [] ''casual''
       empty_state [1, 0, 2]
     = \<lparr>enhanced = [], processing = False, console = [CreateImageBitmapRejected],
        original_urls = [1, 0]\<rparr> \<and>
   \<not> isl (process_one (test_browser (center_image 100 90)) (test_options 0) False [] ''casual'' 2) \<and>
   enhanced (processFiles (test_browser (center_image 100 90)) (test_options 0) False [] ''casual''
              empty_state [1, 2])
     = [test_entry (center_image 100 90) 0, test_entry (center_image 100 90) 0] \<and>
   original_urls (processFiles (test_browser (center_image 100 90)) (test_options 0) False []
              ''casual'' empty_state [1, 2]) = [1, 2]"
proof -
  let ?env = "test_browser (center_image 100 90)"
  have p1: "process_one ?env (test_options 0) False [] ''casual'' 1 = Inr (test_entry (center_image 100 90) 0)"
    using process_one_test [of 0 0] by simp
  have p2: "process_one ?env (test_options 0) False [] ''casual'' 2 = Inr (test_entry (center_image 100 90) 0)"
    using process_one_test [of 0 1] by (simp add: numeral_2_eq_2)
  have p0: "process_one ?env (test_options 0) False [] ''casual'' 0 = Inl CreateImageBitmapRejected"
    by (rule process_one_test_corrupt)
  have pre: "\<forall>g \<in> set [1::nat]. \<not> isl (process_one ?env (test_options 0) False [] ''casual'' g)"
    using p1 by simp
  have ok: "\<forall>f \<in> set [1, 2::nat]. \<not> isl (process_one ?env (test_options 0) False [] ''casual'' f)"
    using p1 p2 by simp
  have a: "processFiles ?env (test_options 0) False [] ''casual'' empty_state ([1] @ 0 # [2])
      = empty_state\<lparr>original_urls := original_urls empty_state @ [1] @ [0],
                      console := console empty_state @ [CreateImageBitmapRejected],
                      processing := False\<rparr>"
    using processFiles_all_or_nothing
            [of "[1]" ?env "test_options 0" False "[]" "''casual''" 0 CreateImageBitmapRejected
                empty_state "[2]"]
          pre p0
    by blast
  have b: "enhanced (processFiles ?env (test_options 0) False [] ''casual'' empty_state [1, 2])
       = map (\<lambda>f. projr (process_one ?env (test_options 0) False [] ''casual'' f)) [1, 2]
           @ enhanced empty_state \<and>
     original_urls (processFiles ?env (test_options 0) False [] ''casual'' empty_state [1, 2])
       = original_urls empty_state @ [1, 2]"
    using processFiles_all_or_nothing
            [of _ ?env "test_options 0" False "[]" "''casual''" _ _ empty_state _ "[1, 2]"]
          ok
    by blast
  show ?thesis
    using a b p0 p1 p2 by (simp add: empty_state_def)
qed

section \<open>Properties of transcoding\<close>

text \<open>
  For any FFmpeg implementation: when \<open>exec\<close> or \<open>readFile\<close> rejects,
  \<open>transcodeToMp4\<close> ends in the state that call left, with no \<open>deleteFile\<close> made.
\<close>

lemma transcodeToMp4_exec_rejects:
  assumes "load ffmpeg fs0 = (Inr u1, fs1)"
      and "fetchFile ffmpeg webmBlob = Inr bytes"
      and "writeFile ffmpeg ''input.webm'' bytes fs1 = (Inr u2, fs2)"
      and "exec ffmpeg ffmpeg_args fs2 = (Inl e, fs3)"
  shows "transcodeToMp4 ffmpeg webmBlob fs0 = (Inl e, fs3)"
  using assms by (simp add: transcodeToMp4_def await_def)

lemma transcodeToMp4_readFile_rejects:
  assumes "load ffmpeg fs0 = (Inr u1, fs1)"
      and "fetchFile ffmpeg webmBlob = Inr bytes"
      and "writeFile ffmpeg ''input.webm'' bytes fs1 = (Inr u2, fs2)"
      and "exec ffmpeg ffmpeg_args fs2 = (Inr u3, fs3)"
      and "readFile ffmpeg ''output.mp4'' fs3 = (Inl e, fs4)"
  shows "transcodeToMp4 ffmpeg webmBlob fs0 = (Inl e, fs4)"
  using assms by (simp add: transcodeToMp4_def await_def)

lemma transcode_success:
  "transcodeToMp4 (test_ffmpeg ''none'') test_webm []
     = (Inr \<lparr>content = [0x6D, 0x70, 0x34], mime = ''video/mp4''\<rparr>, [])"
  by (simp add: transcodeToMp4_def await_def test_ffmpeg_def test_webm_def ffmpeg_args_def)

text \<open>
  C2. The temporary files are not released when transcoding fails: if \<open>exec\<close>
  rejects, \<open>input.webm\<close> is still in the instance's file system when the error
  propagates, and if \<open>readFile\<close> rejects, both \<open>input.webm\<close> and
  \<open>output.mp4\<close> are.
\<close>

theorem transcodeToMp4_failure_leaves_files:
  "transcodeToMp4 (test_ffmpeg ''exec'') test_webm []
     = (Inl (FFmpegRejected ''exec''), [(''input.webm'', content test_webm)]) \<and>
   transcodeToMp4 (test_ffmpeg ''readFile'') test_webm []
     = (Inl (FFmpegRejected ''readFile''),
        [(''output.mp4'', [0x6D, 0x70, 0x34]), (''input.webm'', content test_webm)])"
  by (simp add: transcodeToMp4_def await_def test_ffmpeg_def test_webm_def ffmpeg_args_def)

end
